theory Spec2Isabelle
  imports Complex_Main "HOL-Library.AList" "HOL-Library.Char_ord" "HOL-Library.List_Lexorder"
begin

section \<open>Configuration\<close>

text \<open>
  The embedding follows \<^verbatim>\<open>huduma_watch.py\<close>. Python's unbounded integers are \<open>int\<close>,
  \<open>Optional[int]\<close> is \<open>int option\<close>, the float returned by \<^verbatim>\<open>time.time()\<close> is an opaque
  \<open>real\<close> that is only stored and copied, and a \<^verbatim>\<open>dict\<close> is an association list in
  insertion order (\<open>map_of\<close> reads it, \<open>AList.update\<close> writes it: an existing key keeps its
  place, a new key goes to the end).
\<close>

definition SITES :: "(string \<times> string) list" where
  "SITES =
    [(''KRA iTax'', ''https://itax.kra.go.ke''),
     (''eCitizen'', ''https://accounts.ecitizen.go.ke''),
     (''NTSA TIMS'', ''https://timsvirl.ntsa.go.ke''),
     (''HELB'', ''https://studentportal.helb.co.ke''),
     (''KUCCPS'', ''https://students.kuccps.net'')]"

definition TIMEOUT_SECONDS :: int where
  "TIMEOUT_SECONDS = 10"

definition SLOW_THRESHOLD_MS :: int where
  "SLOW_THRESHOLD_MS = 4000"

definition HISTORY_ENTRIES :: nat where
  "HISTORY_ENTRIES = 288"

section \<open>Data model\<close>

datatype status = OK | SLOW | DOWN

datatype py_error = KeyError | TypeError | ValueError

text \<open>One stored sample: \<^verbatim>\<open>Tuple[float, int, int]\<close> = (timestamp, code, latency).\<close>

type_synonym entry = "real \<times> int \<times> int"

text \<open>
  \<^verbatim>\<open>collections.deque(maxlen=n)\<close>: the items oldest first. \<^verbatim>\<open>append\<close> adds on the right
  and, when the length then exceeds \<^verbatim>\<open>maxlen\<close>, removes one item on the left.
\<close>

definition deque_append :: "nat \<Rightarrow> 'a list \<Rightarrow> 'a \<Rightarrow> 'a list" where
  "deque_append maxlen dq x =
     (let ys = dq @ [x] in if maxlen < length ys then tl ys else ys)"

text \<open>Python's \<^verbatim>\<open>x or d\<close> on an optional integer: \<^verbatim>\<open>None\<close> and \<^verbatim>\<open>0\<close> are both falsy.\<close>

definition py_or :: "int option \<Rightarrow> int \<Rightarrow> int" where
  "py_or x d = (case x of None \<Rightarrow> d | Some v \<Rightarrow> if v = 0 then d else v)"

text \<open>
  The text handed to \<^verbatim>\<open>send_alert\<close>, by its template and the values put into it (the
  service, the latency in milliseconds that the template shows as \<^verbatim>\<open>latency/1000\<close>
  seconds, the code as \<^verbatim>\<open>str\<close> prints it); the local time in the text is left out.
\<close>

datatype message =
    Down_message string
  | Slow_message string int "int option"
  | Empty_message

text \<open>The service a message is about (the empty text is about none).\<close>

fun message_service :: "message \<Rightarrow> string option" where
  "message_service (Down_message service) = Some service"
| "message_service (Slow_message service latency code) = Some service"
| "message_service Empty_message = None"

record monitor =
  history :: "(string \<times> entry list) list"
  g_up :: "string \<rightharpoonup> int"
  g_latency :: "string \<rightharpoonup> int"
  alerts :: "message list"

section \<open>Classifier and alert path\<close>

definition classify :: "int option \<Rightarrow> int option \<Rightarrow> status" where
  "classify code latency =
     (if code = None \<or> latency = None then DOWN
      else if 500 \<le> the code \<or> SLOW_THRESHOLD_MS < the latency then SLOW
      else OK)"

definition last_status :: "entry list \<Rightarrow> int option \<times> int option" where
  "last_status entries =
     (if entries = [] then (None, None)
      else (case last entries of (_, code, lat) \<Rightarrow>
              (if code = 0 then None else Some code, if lat = - 1 then None else Some lat)))"

text \<open>
  \<^verbatim>\<open>latency/1000\<close> raises \<^verbatim>\<open>TypeError\<close> when \<^verbatim>\<open>latency\<close> is \<^verbatim>\<open>None\<close>; a code that is
  \<^verbatim>\<open>None\<close> is printed as it is.
\<close>

definition compose_message ::
  "string \<Rightarrow> status \<Rightarrow> int option \<Rightarrow> int option \<Rightarrow> py_error + message" where
  "compose_message service state code latency =
     (if state = DOWN then Inr (Down_message service)
      else if state = SLOW then
        (case latency of None \<Rightarrow> Inl TypeError | Some l \<Rightarrow> Inr (Slow_message service l code))
      else Inr Empty_message)"

text \<open>
  \<^verbatim>\<open>send_alert\<close> hands the message to the Twitter client when one is configured and
  swallows every failure of the client; \<open>alerts\<close> records the messages it was called
  with, in order, which is what the alert path decides.
\<close>

definition send_alert :: "message \<Rightarrow> monitor \<Rightarrow> monitor" where
  "send_alert m s = s\<lparr>alerts := alerts s @ [m]\<rparr>"

text \<open>The condition of line 130, with the arguments in the order it reads them.\<close>

definition alert_condition :: "status \<Rightarrow> status \<Rightarrow> bool" where
  "alert_condition state prev_state = (state \<in> {DOWN, SLOW} \<and> state \<noteq> prev_state)"

section \<open>The probe loop\<close>

text \<open>
  One iteration of the loop of \<^verbatim>\<open>check_services\<close>. The network and the clock are
  parameters: \<open>probe url\<close> is what \<^verbatim>\<open>measure(url)\<close> returns in this tick and \<open>clock name\<close>
  what \<^verbatim>\<open>time.time()\<close> returns when the sample of \<open>name\<close> is stored (names and URLs of
  the sites are distinct, so a tick asks for each once).
  \<^verbatim>\<open>history[name]\<close> raises \<^verbatim>\<open>KeyError\<close> for a missing key.
\<close>

definition check_service ::
  "(string \<Rightarrow> int option \<times> int option) \<Rightarrow> (string \<Rightarrow> real) \<Rightarrow> monitor \<Rightarrow> string \<times> string
     \<Rightarrow> py_error + monitor" where
  "check_service probe clock s site =
     (case site of (name, url) \<Rightarrow>
        (case map_of (history s) name of
           None \<Rightarrow> Inl KeyError
         | Some dq \<Rightarrow>
             (case last_status dq of (prev_code, prev_latency) \<Rightarrow>
              (case probe url of (code, latency) \<Rightarrow>
                 let prev_state = classify prev_code prev_latency;
                     state = classify code latency;
                     s1 = s\<lparr>history := AList.update name
                            (deque_append HISTORY_ENTRIES dq
                               (clock name, py_or code 0, py_or latency (- 1)))
                            (history s)\<rparr>;
                     s2 = s1\<lparr>g_up := (g_up s1)(name \<mapsto> (if state = OK then 1 else 0))\<rparr>;
                     s3 = (case latency of
                             None \<Rightarrow> s2
                           | Some l \<Rightarrow> s2\<lparr>g_latency := (g_latency s2)(name \<mapsto> l)\<rparr>)
                 in if alert_condition state prev_state then
                      (case compose_message name state code latency of
                         Inl e \<Rightarrow> Inl e
                       | Inr m \<Rightarrow> Inr (send_alert m s3))
                    else Inr s3))))"

fun check_sites ::
  "(string \<Rightarrow> int option \<times> int option) \<Rightarrow> (string \<Rightarrow> real) \<Rightarrow> (string \<times> string) list
     \<Rightarrow> monitor \<Rightarrow> py_error + monitor" where
  "check_sites probe clock [] s = Inr s"
| "check_sites probe clock (site # rest) s =
     (case check_service probe clock s site of
        Inl e \<Rightarrow> Inl e
      | Inr s' \<Rightarrow> check_sites probe clock rest s')"

definition check_services ::
  "(string \<Rightarrow> int option \<times> int option) \<Rightarrow> (string \<Rightarrow> real) \<Rightarrow> monitor \<Rightarrow> py_error + monitor" where
  "check_services probe clock s = check_sites probe clock SITES s"

section \<open>Persistence\<close>

text \<open>
  What \<^verbatim>\<open>json.load\<close> finds in \<^verbatim>\<open>status_history.json\<close>: no file, a file that cannot be
  read as a JSON object, or an object from names to arrays. An element of such an array
  either unpacks into \<^verbatim>\<open>ts, code, lat\<close> or it does not (\<^verbatim>\<open>ValueError\<close>). The JSON text
  itself is not modelled: \<^verbatim>\<open>json.dump\<close> followed by \<^verbatim>\<open>json.load\<close> gives back the same
  numbers, with the tuples as arrays.
\<close>

datatype json_entry = Triple real int int | Malformed_entry

datatype state_file =
    No_file
  | Unreadable
  | Json_object "(string \<times> json_entry list) list"

text \<open>
  The inner loop of \<^verbatim>\<open>load_history\<close>: the deque as it is when the loop ends, and the
  exception that ended it, if any.
\<close>

fun load_entries :: "entry list \<Rightarrow> json_entry list \<Rightarrow> entry list \<times> py_error option" where
  "load_entries dq [] = (dq, None)"
| "load_entries dq (Triple ts code lat # rest) =
     load_entries (deque_append HISTORY_ENTRIES dq (ts, code, lat)) rest"
| "load_entries dq (Malformed_entry # rest) = (dq, Some ValueError)"

text \<open>
  The outer loop. \<^verbatim>\<open>history.get(name) or deque(...)\<close> takes the stored deque only when
  it is there and not empty; the appends then change that very deque, so they stay when
  an exception ends the loop before \<^verbatim>\<open>history[name] = dq\<close>. The slice
  \<^verbatim>\<open>entries[-HISTORY_ENTRIES:]\<close> is the last 288 elements.
\<close>

fun load_items ::
  "(string \<times> entry list) list \<Rightarrow> (string \<times> json_entry list) list \<Rightarrow> (string \<times> entry list) list" where
  "load_items h [] = h"
| "load_items h ((name, entries) # rest) =
     (let stored = (case map_of h name of None \<Rightarrow> False | Some d \<Rightarrow> d \<noteq> []);
          dq = (if stored then the (map_of h name) else [])
      in case load_entries dq (drop (length entries - HISTORY_ENTRIES) entries) of
           (dq', None) \<Rightarrow> load_items (AList.update name dq' h) rest
         | (dq', Some e) \<Rightarrow> if stored then AList.update name dq' h else h)"

definition load_history :: "state_file \<Rightarrow> monitor \<Rightarrow> monitor" where
  "load_history file s =
     (case file of
        No_file \<Rightarrow> s
      | Unreadable \<Rightarrow> s
      | Json_object data \<Rightarrow> s\<lparr>history := load_items (history s) data\<rparr>)"

text \<open>The file that \<^verbatim>\<open>save_history\<close> writes when the write succeeds.\<close>

definition save_history :: "monitor \<Rightarrow> state_file" where
  "save_history s =
     Json_object (map (\<lambda>(n, d). (n, map (\<lambda>(ts, code, lat). Triple ts code lat) d)) (history s))"

section \<open>Dashboard and start of the process\<close>

text \<open>The rows handed to the template, sorted by name; the rendering is left out.\<close>

record service_row =
  svc_name :: string
  svc_code :: "int option"
  svc_latency :: "int option"
  svc_state :: status

definition dashboard :: "monitor \<Rightarrow> service_row list" where
  "dashboard s =
     sort_key svc_name
       (map (\<lambda>(name, entries).
               (case last_status entries of (code, latency) \<Rightarrow>
                  \<lparr>svc_name = name, svc_code = code, svc_latency = latency,
                   svc_state = classify code latency\<rparr>))
            (history s))"

text \<open>The module-level state before \<^verbatim>\<open>__main__\<close> runs: an empty deque for each site.\<close>

definition initial_monitor :: monitor where
  "initial_monitor =
     \<lparr>history = map (\<lambda>(name, url). (name, [])) SITES,
      g_up = Map.empty, g_latency = Map.empty, alerts = []\<rparr>"

text \<open>
  \<^verbatim>\<open>__main__\<close>: \<^verbatim>\<open>load_history()\<close> once, then \<^verbatim>\<open>check_services()\<close> at every tick, each tick
  with its own network and clock. \<^verbatim>\<open>save_history\<close> reads the state and does not change it.
\<close>

fun run_ticks ::
  "((string \<Rightarrow> int option \<times> int option) \<times> (string \<Rightarrow> real)) list \<Rightarrow> monitor
     \<Rightarrow> py_error + monitor" where
  "run_ticks [] s = Inr s"
| "run_ticks ((probe, clock) # ticks) s =
     (case check_services probe clock s of
        Inl e \<Rightarrow> Inl e
      | Inr s' \<Rightarrow> run_ticks ticks s')"

definition main_run ::
  "state_file \<Rightarrow> ((string \<Rightarrow> int option \<times> int option) \<times> (string \<Rightarrow> real)) list
     \<Rightarrow> py_error + monitor" where
  "main_run file ticks = run_ticks ticks (load_history file initial_monitor)"

section \<open>Classifier\<close>

text \<open>
  C1. \<open>classify\<close> returns DOWN exactly when the code or the latency is absent, SLOW exactly
  when both are present and the code is at least 500 or the latency is above
  \<open>SLOW_THRESHOLD_MS\<close> = 4000, and OK exactly in the remaining case; the four examples
  of the specification evaluate as it says.
\<close>

theorem classify_cases:
  "(classify C L = DOWN) = (C = None \<or> L = None)
   \<and> (classify C L = SLOW) = (\<exists>c l. C = Some c \<and> L = Some l \<and> (500 \<le> c \<or> 4000 < l))
   \<and> (classify C L = OK) = (\<exists>c l. C = Some c \<and> L = Some l \<and> c < 500 \<and> l \<le> 4000)
   \<and> classify (Some 503) (Some 100) = SLOW
   \<and> classify (Some 200) (Some 5000) = SLOW
   \<and> classify (Some 200) (Some 100) = OK
   \<and> classify None None = DOWN"
  by (cases C; cases L) (auto simp: classify_def SLOW_THRESHOLD_MS_def)

section \<open>Bounded history\<close>

lemma deque_append_length: "length dq \<le> cap \<Longrightarrow> length (deque_append cap dq x) \<le> cap"
  by (auto simp: deque_append_def Let_def)

lemma foldl_deque_append:
  "length dq \<le> cap \<Longrightarrow>
   foldl (deque_append cap) dq xs = drop (length dq + length xs - cap) (dq @ xs)"
proof (induction xs arbitrary: dq)
  case Nil
  then show ?case by simp
next
  case (Cons x xs)
  show ?case
  proof (cases "length dq < cap")
    case True
    then have step: "deque_append cap dq x = dq @ [x]"
      by (simp add: deque_append_def)
    from True have "length (dq @ [x]) \<le> cap" by simp
    from Cons.IH [OF this] step show ?thesis by simp
  next
    case False
    with Cons.prems have full: "length dq = cap" by simp
    then have step: "deque_append cap dq x = tl (dq @ [x])"
      by (simp add: deque_append_def)
    have len: "length (tl (dq @ [x])) = cap" using full by simp
    have shift: "tl (dq @ [x]) @ xs = drop 1 (dq @ x # xs)"
      by (cases dq) simp_all
    have "foldl (deque_append cap) dq (x # xs) = foldl (deque_append cap) (tl (dq @ [x])) xs"
      using step by simp
    also have "\<dots> = drop (length xs) (tl (dq @ [x]) @ xs)"
      using Cons.IH [of "tl (dq @ [x])"] len by simp
    also have "\<dots> = drop (length xs + 1) (dq @ x # xs)"
      unfolding shift by (simp only: drop_drop)
    also have "length xs + 1 = length dq + length (x # xs) - cap"
      using full by simp
    finally show ?thesis .
  qed
qed

lemma foldl_deque_append_empty:
  "foldl (deque_append cap) [] xs = drop (length xs - cap) xs"
  using foldl_deque_append [of "[]" cap xs] by simp

lemma set_update_subset: "set (AList.update k v al) \<subseteq> insert (k, v) (set al)"
  by (induction al) auto

lemma check_service_history:
  assumes "check_service probe clock s (name, url) = Inr s'"
  shows "\<exists>dq. map_of (history s) name = Some dq \<and>
           history s' = AList.update name
             (deque_append HISTORY_ENTRIES dq
                (clock name, py_or (fst (probe url)) 0, py_or (snd (probe url)) (- 1)))
             (history s)"
  using assms
  by (auto simp: check_service_def Let_def send_alert_def
           split: option.splits prod.splits sum.splits if_splits)

lemma map_of_bounded:
  "\<forall>d \<in> snd ` set h. length d \<le> n \<Longrightarrow> map_of h k = Some d \<Longrightarrow> length d \<le> n"
  by (auto dest!: map_of_SomeD)

lemma update_bounded:
  assumes "\<forall>d \<in> snd ` set h. length d \<le> n" and "length v \<le> n"
  shows "\<forall>d \<in> snd ` set (AList.update k v h). length d \<le> n"
  using assms set_update_subset [of k v h] by fastforce

lemma check_service_bounded:
  assumes "\<forall>d \<in> snd ` set (history s). length d \<le> HISTORY_ENTRIES"
    and "check_service probe clock s site = Inr s'"
  shows "\<forall>d \<in> snd ` set (history s'). length d \<le> HISTORY_ENTRIES"
proof -
  obtain name url where site: "site = (name, url)" by (cases site)
  from check_service_history [OF assms(2) [unfolded site]]
  obtain dq where dq: "map_of (history s) name = Some dq"
    and h': "history s' = AList.update name
             (deque_append HISTORY_ENTRIES dq
                (clock name, py_or (fst (probe url)) 0, py_or (snd (probe url)) (- 1)))
             (history s)" by blast
  have "length dq \<le> HISTORY_ENTRIES" using map_of_bounded [OF assms(1) dq] .
  then show ?thesis
    unfolding h' by (intro update_bounded [OF assms(1)] deque_append_length)
qed

lemma check_sites_bounded:
  "\<forall>d \<in> snd ` set (history s). length d \<le> HISTORY_ENTRIES \<Longrightarrow>
   check_sites probe clock sites s = Inr s' \<Longrightarrow>
   \<forall>d \<in> snd ` set (history s'). length d \<le> HISTORY_ENTRIES"
proof (induction sites arbitrary: s)
  case Nil
  then show ?case by simp
next
  case (Cons site sites)
  from Cons.prems(2) obtain s1 where s1: "check_service probe clock s site = Inr s1"
    and rest: "check_sites probe clock sites s1 = Inr s'"
    by (auto split: sum.splits)
  from Cons.IH [OF check_service_bounded [OF Cons.prems(1) s1] rest] show ?case .
qed

lemma run_ticks_bounded:
  "\<forall>d \<in> snd ` set (history s). length d \<le> HISTORY_ENTRIES \<Longrightarrow>
   run_ticks ticks s = Inr s' \<Longrightarrow>
   \<forall>d \<in> snd ` set (history s'). length d \<le> HISTORY_ENTRIES"
proof (induction ticks arbitrary: s)
  case Nil
  then show ?case by simp
next
  case (Cons tick ticks)
  obtain probe clock where tick: "tick = (probe, clock)" by (cases tick)
  from Cons.prems(2) obtain s1 where s1: "check_services probe clock s = Inr s1"
    and rest: "run_ticks ticks s1 = Inr s'"
    by (auto simp: tick split: sum.splits)
  from s1 have "check_sites probe clock SITES s = Inr s1" by (simp add: check_services_def)
  from Cons.IH [OF check_sites_bounded [OF Cons.prems(1) this] rest] show ?case .
qed

lemma load_entries_bounded:
  "length dq \<le> HISTORY_ENTRIES \<Longrightarrow> length (fst (load_entries dq es)) \<le> HISTORY_ENTRIES"
  by (induction dq es rule: load_entries.induct) (simp_all add: deque_append_length)

lemma load_items_step:
  "load_items h ((name, entries) # rest) =
     (let dq = (case map_of h name of None \<Rightarrow> [] | Some d \<Rightarrow> d);
          res = load_entries dq (drop (length entries - HISTORY_ENTRIES) entries)
      in if snd res = None then load_items (AList.update name (fst res) h) rest
         else if dq = [] then h else AList.update name (fst res) h)"
  by (auto simp: Let_def split: option.splits prod.splits)

lemma load_items_bounded:
  "\<forall>d \<in> snd ` set h. length d \<le> HISTORY_ENTRIES \<Longrightarrow>
   \<forall>d \<in> snd ` set (load_items h data). length d \<le> HISTORY_ENTRIES"
proof (induction data arbitrary: h)
  case Nil
  then show ?case by simp
next
  case (Cons item data)
  obtain name entries where item: "item = (name, entries)" by (cases item)
  define dq where "dq = (case map_of h name of None \<Rightarrow> [] | Some d \<Rightarrow> d)"
  define res where "res = load_entries dq (drop (length entries - HISTORY_ENTRIES) entries)"
  have "length dq \<le> HISTORY_ENTRIES"
    using Cons.prems by (auto simp: dq_def split: option.splits dest!: map_of_SomeD)
  then have len: "length (fst res) \<le> HISTORY_ENTRIES"
    unfolding res_def by (rule load_entries_bounded)
  have upd: "\<forall>d \<in> snd ` set (AList.update name (fst res) h). length d \<le> HISTORY_ENTRIES"
    by (rule update_bounded [OF Cons.prems len])
  have "load_items h (item # data) =
          (if snd res = None then load_items (AList.update name (fst res) h) data
           else if dq = [] then h else AList.update name (fst res) h)"
    unfolding item load_items_step res_def dq_def by (simp add: Let_def)
  then show ?case using Cons.IH [OF upd] upd Cons.prems by simp
qed

lemma initial_bounded:
  "\<forall>d \<in> snd ` set (history initial_monitor). length d \<le> HISTORY_ENTRIES"
  by (auto simp: initial_monitor_def)

lemma load_history_bounded:
  assumes "\<forall>d \<in> snd ` set (history s). length d \<le> HISTORY_ENTRIES"
  shows "\<forall>d \<in> snd ` set (history (load_history file s)). length d \<le> HISTORY_ENTRIES"
proof (cases "file")
  case No_file
  then have "load_history file s = s" by (simp add: load_history_def)
  then show ?thesis using assms by (simp only:)
next
  case Unreadable
  then have "load_history file s = s" by (simp add: load_history_def)
  then show ?thesis using assms by (simp only:)
next
  case (Json_object data)
  then have "history (load_history file s) = load_items (history s) data"
    by (simp add: load_history_def)
  then show ?thesis using load_items_bounded [OF assms, of data] by (simp only:)
qed

lemma main_run_bounded:
  "main_run file ticks = Inr s \<Longrightarrow> \<forall>d \<in> snd ` set (history s). length d \<le> HISTORY_ENTRIES"
  unfolding main_run_def
  by (rule run_ticks_bounded [OF load_history_bounded [OF initial_bounded]])


lemma one_tick:
  "main_run No_file [(\<lambda>url. (None, None), \<lambda>name. 0)] =
     Inr \<lparr>history =
            [(''KRA iTax'', [(0, 0, - 1)]), (''eCitizen'', [(0, 0, - 1)]),
             (''NTSA TIMS'', [(0, 0, - 1)]), (''HELB'', [(0, 0, - 1)]),
             (''KUCCPS'', [(0, 0, - 1)])],
          g_up = [''KRA iTax'' \<mapsto> 0, ''eCitizen'' \<mapsto> 0, ''NTSA TIMS'' \<mapsto> 0,
                  ''HELB'' \<mapsto> 0, ''KUCCPS'' \<mapsto> 0],
          g_latency = Map.empty, alerts = []\<rparr>"
  by (simp add: main_run_def load_history_def initial_monitor_def SITES_def check_services_def
        check_service_def last_status_def classify_def deque_append_def HISTORY_ENTRIES_def
        py_or_def alert_condition_def)


section \<open>One tick, endpoint by endpoint\<close>

text \<open>
  What one iteration of the loop does when the key is there: it never raises, and the new
  state is the old one with the sample appended, the gauges set and at most one message
  sent.
\<close>

lemma check_service_Some:
  assumes "map_of (history s) name = Some dq"
  shows "check_service probe clock s (name, url) =
     Inr (s\<lparr>history := AList.update name
                (deque_append HISTORY_ENTRIES dq
                   (clock name, py_or (fst (probe url)) 0, py_or (snd (probe url)) (- 1)))
                (history s),
            g_up := (g_up s)(name \<mapsto>
                (if classify (fst (probe url)) (snd (probe url)) = OK then 1 else 0)),
            g_latency := (case snd (probe url) of
                            None \<Rightarrow> g_latency s
                          | Some l \<Rightarrow> (g_latency s)(name \<mapsto> l)),
            alerts := alerts s @
              (if alert_condition (classify (fst (probe url)) (snd (probe url)))
                    (classify (fst (last_status dq)) (snd (last_status dq)))
               then [if classify (fst (probe url)) (snd (probe url)) = DOWN
                     then Down_message name
                     else Slow_message name (the (snd (probe url))) (fst (probe url))]
               else [])\<rparr>)"
proof -
  obtain code latency where p: "probe url = (code, latency)" by (cases "probe url")
  obtain pc pl where l: "last_status dq = (pc, pl)" by (cases "last_status dq")
  show ?thesis
    by (cases code; cases latency)
       (simp_all add: check_service_def assms p l Let_def classify_def alert_condition_def
          compose_message_def send_alert_def)
qed

lemma check_service_frame:
  assumes "n \<noteq> name" and "check_service probe clock s (n, u) = Inr s'"
  shows "map_of (history s') name = map_of (history s) name"
    and "g_up s' name = g_up s name"
    and "g_latency s' name = g_latency s name"
    and "filter (\<lambda>m. message_service m = Some name) (alerts s') =
         filter (\<lambda>m. message_service m = Some name) (alerts s)"
proof -
  from assms(2) obtain dq where dq: "map_of (history s) n = Some dq"
    by (cases "map_of (history s) n") (simp_all add: check_service_def)
  note r = assms(2) [unfolded check_service_Some [OF dq], simplified, symmetric]
  show "map_of (history s') name = map_of (history s) name"
    using assms(1) by (simp add: r update_conv')
  show "g_up s' name = g_up s name"
    using assms(1) by (simp add: r)
  show "g_latency s' name = g_latency s name"
    using assms(1) by (simp add: r split: option.splits)
  show "filter (\<lambda>m. message_service m = Some name) (alerts s') =
        filter (\<lambda>m. message_service m = Some name) (alerts s)"
    using assms(1) by (simp add: r)
qed

lemma check_sites_frame:
  assumes "name \<notin> fst ` set sites" and "check_sites probe clock sites s = Inr s'"
  shows "map_of (history s') name = map_of (history s) name
       \<and> g_up s' name = g_up s name
       \<and> g_latency s' name = g_latency s name
       \<and> filter (\<lambda>m. message_service m = Some name) (alerts s') =
         filter (\<lambda>m. message_service m = Some name) (alerts s)"
  using assms
proof (induction sites arbitrary: s)
  case Nil
  then show ?case by simp
next
  case (Cons site sites)
  obtain n u where site: "site = (n, u)" by (cases site)
  from Cons.prems(2) obtain s1 where s1: "check_service probe clock s (n, u) = Inr s1"
    and rest: "check_sites probe clock sites s1 = Inr s'"
    by (auto simp: site split: sum.splits)
  from Cons.prems(1) have ne: "n \<noteq> name" and notin: "name \<notin> fst ` set sites"
    by (auto simp: site)
  from Cons.IH [OF notin rest] check_service_frame [OF ne s1] show ?case by simp
qed

lemma check_sites_at:
  assumes "distinct (map fst sites)" and "(name, url) \<in> set sites"
    and "check_sites probe clock sites s = Inr s'"
  shows "\<exists>dq. map_of (history s) name = Some dq
       \<and> map_of (history s') name =
           Some (deque_append HISTORY_ENTRIES dq
                   (clock name, py_or (fst (probe url)) 0, py_or (snd (probe url)) (- 1)))
       \<and> g_up s' name = Some (if classify (fst (probe url)) (snd (probe url)) = OK then 1 else 0)
       \<and> g_latency s' name =
           (case snd (probe url) of None \<Rightarrow> g_latency s name | Some l \<Rightarrow> Some l)
       \<and> filter (\<lambda>m. message_service m = Some name) (alerts s') =
           filter (\<lambda>m. message_service m = Some name) (alerts s) @
             (if alert_condition (classify (fst (probe url)) (snd (probe url)))
                   (classify (fst (last_status dq)) (snd (last_status dq)))
              then [if classify (fst (probe url)) (snd (probe url)) = DOWN
                    then Down_message name
                    else Slow_message name (the (snd (probe url))) (fst (probe url))]
              else [])"
  using assms
proof (induction sites arbitrary: s)
  case Nil
  then show ?case by simp
next
  case (Cons site sites)
  obtain n u where site: "site = (n, u)" by (cases site)
  from Cons.prems(3) obtain s1 where s1: "check_service probe clock s (n, u) = Inr s1"
    and rest: "check_sites probe clock sites s1 = Inr s'"
    by (auto simp: site split: sum.splits)
  from Cons.prems(1) have notin: "n \<notin> fst ` set sites" and dist: "distinct (map fst sites)"
    by (auto simp: site)
  show ?case
  proof (cases "n = name")
    case True
    with Cons.prems(2) notin have u: "u = url"
      by (auto simp: site intro: rev_image_eqI)
    from s1 obtain dq where dq: "map_of (history s) name = Some dq"
      by (cases "map_of (history s) name") (simp_all add: check_service_def True)
    note r = s1 [unfolded True u check_service_Some [OF dq], simplified, symmetric]
    from notin True have "name \<notin> fst ` set sites" by simp
    note fr = check_sites_frame [OF this rest]
    show ?thesis
      by (rule exI [of _ dq]) (simp add: fr dq, simp add: r update_conv' split: option.splits)
  next
    case False
    with Cons.prems(2) have mem: "(name, url) \<in> set sites" by (simp add: site)
    note fr = check_service_frame [OF False s1]
    from Cons.IH [OF dist mem rest] show ?thesis
      unfolding fr .
  qed
qed

lemma check_sites_total:
  assumes "fst ` set sites \<subseteq> fst ` set (history s)"
  shows "\<exists>s'. check_sites probe clock sites s = Inr s'
             \<and> fst ` set (history s') = fst ` set (history s)"
  using assms
proof (induction sites arbitrary: s)
  case Nil
  then show ?case by simp
next
  case (Cons site sites)
  obtain n u where site: "site = (n, u)" by (cases site)
  from Cons.prems have "n \<in> fst ` set (history s)" by (simp add: site)
  then obtain dq where dq: "map_of (history s) n = Some dq"
    by (cases "map_of (history s) n") (auto simp: map_of_eq_None_iff)
  obtain s1 where s1: "check_service probe clock s (n, u) = Inr s1"
    and h1: "history s1 = AList.update n
               (deque_append HISTORY_ENTRIES dq
                  (clock n, py_or (fst (probe u)) 0, py_or (snd (probe u)) (- 1)))
               (history s)"
    using check_service_Some [OF dq, of probe clock u] by simp
  from \<open>n \<in> fst ` set (history s)\<close> have keys: "fst ` set (history s1) = fst ` set (history s)"
    unfolding h1 dom_update by blast
  with Cons.prems have "fst ` set sites \<subseteq> fst ` set (history s1)" by (simp add: site)
  from Cons.IH [OF this] s1 keys show ?case by (simp add: site)
qed

section \<open>Alerts\<close>

lemma SITES_distinct: "distinct (map fst SITES)"
  by (simp add: SITES_def)

lemma check_service_error: "check_service probe clock s site = Inl e \<Longrightarrow> e = KeyError"
proof -
  assume a: "check_service probe clock s site = Inl e"
  obtain n u where site: "site = (n, u)" by (cases site)
  show "e = KeyError"
  proof (cases "map_of (history s) n")
    case None
    with a show ?thesis by (simp add: check_service_def site)
  next
    case (Some dq)
    from a show ?thesis unfolding site check_service_Some [OF Some] by simp
  qed
qed

lemma check_sites_error: "check_sites probe clock sites s = Inl e \<Longrightarrow> e = KeyError"
proof (induction sites arbitrary: s)
  case Nil
  then show ?case by simp
next
  case (Cons site sites)
  then show ?case
    by (cases "check_service probe clock s site") (auto dest: check_service_error)
qed

text \<open>
  C9. A SLOW message is only formatted with a code and a latency: \<open>classify\<close> returns SLOW
  only when both are present, and then \<open>compose_message\<close> returns the text and does not
  raise; an iteration of the loop that sends a message while the classification is SLOW
  has measured a code and a latency and sends the SLOW text with both; an iteration and the
  whole of \<open>check_services\<close> never end in the \<^verbatim>\<open>TypeError\<close> of \<^verbatim>\<open>latency/1000\<close>.
\<close>

theorem slow_message_well_defined:
  "(classify code latency = SLOW \<longrightarrow>
      (\<exists>c l. code = Some c \<and> latency = Some l
             \<and> compose_message name SLOW code latency = Inr (Slow_message name l (Some c))))
   \<and> (check_service probe clock s (name, url) = Inr s'
        \<and> classify (fst (probe url)) (snd (probe url)) = SLOW \<and> alerts s' \<noteq> alerts s \<longrightarrow>
      (\<exists>c l. probe url = (Some c, Some l)
             \<and> alerts s' = alerts s @ [Slow_message name l (Some c)]))
   \<and> check_service probe clock s site \<noteq> Inl TypeError
   \<and> check_services probe clock s \<noteq> Inl TypeError"
proof (intro conjI impI)
  assume "classify code latency = SLOW"
  then show "\<exists>c l. code = Some c \<and> latency = Some l
             \<and> compose_message name SLOW code latency = Inr (Slow_message name l (Some c))"
    by (cases code; cases latency) (simp_all add: classify_def compose_message_def)
next
  assume a: "check_service probe clock s (name, url) = Inr s'
        \<and> classify (fst (probe url)) (snd (probe url)) = SLOW \<and> alerts s' \<noteq> alerts s"
  then obtain dq where dq: "map_of (history s) name = Some dq"
    by (cases "map_of (history s) name") (simp_all add: check_service_def)
  obtain code latency where p: "probe url = (code, latency)" by (cases "probe url")
  from a have slow: "classify code latency = SLOW" by (simp add: p)
  then obtain c l where cl: "code = Some c" "latency = Some l"
    by (cases code; cases latency) (simp_all add: classify_def)
  from a have "alerts s' = alerts s @ [Slow_message name l (Some c)]"
    unfolding check_service_Some [OF dq] by (auto simp: p cl split: if_splits)
  then show "\<exists>c l. probe url = (Some c, Some l)
             \<and> alerts s' = alerts s @ [Slow_message name l (Some c)]"
    by (simp add: p cl)
next
  show "check_service probe clock s site \<noteq> Inl TypeError"
    using check_service_error [of probe clock s site TypeError] by auto
next
  show "check_services probe clock s \<noteq> Inl TypeError"
    using check_sites_error [of probe clock SITES s TypeError]
    by (auto simp: check_services_def)
qed

lemma slow_iteration:
  "check_service (\<lambda>url. (Some 503, Some 100)) (\<lambda>name. 0) initial_monitor
     (''HELB'', ''https://studentportal.helb.co.ke'') =
   Inr \<lparr>history =
          [(''KRA iTax'', []), (''eCitizen'', []), (''NTSA TIMS'', []),
           (''HELB'', [(0, 503, 100)]), (''KUCCPS'', [])],
        g_up = [''HELB'' \<mapsto> 0], g_latency = [''HELB'' \<mapsto> 100],
        alerts = [Slow_message ''HELB'' 100 (Some 503)]\<rparr>"
  by (simp add: initial_monitor_def SITES_def check_service_def last_status_def classify_def
        deque_append_def HISTORY_ENTRIES_def py_or_def alert_condition_def compose_message_def
        send_alert_def SLOW_THRESHOLD_MS_def)

theorem slow_message_well_defined_witness:
  "classify (Some 503) (Some 100) = SLOW
   \<and> compose_message ''HELB'' SLOW (Some 503) (Some 100) = Inr (Slow_message ''HELB'' 100 (Some 503))
   \<and> check_service (\<lambda>url. (Some 503, Some 100)) (\<lambda>name. 0) initial_monitor
         (''HELB'', ''https://studentportal.helb.co.ke'') =
       Inr \<lparr>history =
          [(''KRA iTax'', []), (''eCitizen'', []), (''NTSA TIMS'', []),
           (''HELB'', [(0, 503, 100)]), (''KUCCPS'', [])],
        g_up = [''HELB'' \<mapsto> 0], g_latency = [''HELB'' \<mapsto> 100],
        alerts = [Slow_message ''HELB'' 100 (Some 503)]\<rparr>
   \<and> [Slow_message ''HELB'' 100 (Some 503)] \<noteq> alerts initial_monitor
   \<and> [Slow_message ''HELB'' 100 (Some 503)] =
       alerts initial_monitor @ [Slow_message ''HELB'' 100 (Some 503)]"
proof -
  have slow: "classify (Some 503) (Some 100) = SLOW"
    by (simp add: classify_def)
  have slow': "classify (fst (Some 503, Some 100)) (snd (Some 503 :: int option, Some 100 :: int option)) = SLOW"
    by (simp add: classify_def)
  have sent: "alerts \<lparr>history =
          [(''KRA iTax'', []), (''eCitizen'', []), (''NTSA TIMS'', []),
           (''HELB'', [(0 :: real, 503 :: int, 100 :: int)]), (''KUCCPS'', [])],
        g_up = [''HELB'' \<mapsto> 0 :: int], g_latency = [''HELB'' \<mapsto> 100 :: int],
        alerts = [Slow_message ''HELB'' 100 (Some 503)]\<rparr> \<noteq> alerts initial_monitor"
    by (simp add: initial_monitor_def)
  then have sent': "[Slow_message ''HELB'' 100 (Some 503)] \<noteq> alerts initial_monitor"
    by simp
  note w = slow_message_well_defined [of "Some 503" "Some 100" "''HELB''"
      "\<lambda>url. (Some 503, Some 100)" "\<lambda>name. 0" initial_monitor
      "''https://studentportal.helb.co.ke''"]
  from w [THEN conjunct1] slow
  have composed: "compose_message ''HELB'' SLOW (Some 503) (Some 100) =
      Inr (Slow_message ''HELB'' 100 (Some 503))"
    by simp
  from w [THEN conjunct2, THEN conjunct1, rule_format, OF conjI [OF slow_iteration conjI [OF slow' sent]]]
  have msg: "[Slow_message ''HELB'' 100 (Some 503)] =
       alerts initial_monitor @ [Slow_message ''HELB'' 100 (Some 503)]"
    by simp
  from slow composed slow_iteration sent' msg show ?thesis by (intro conjI)
qed

lemma compose_message_needs_latency: "compose_message name SLOW code None = Inl TypeError"
  by (simp add: compose_message_def)

lemma check_services_at:
  assumes "(name, url) \<in> set SITES" and "check_services probe clock s = Inr s'"
  shows "\<exists>dq. map_of (history s) name = Some dq
       \<and> map_of (history s') name =
           Some (deque_append HISTORY_ENTRIES dq
                   (clock name, py_or (fst (probe url)) 0, py_or (snd (probe url)) (- 1)))
       \<and> g_up s' name = Some (if classify (fst (probe url)) (snd (probe url)) = OK then 1 else 0)
       \<and> g_latency s' name =
           (case snd (probe url) of None \<Rightarrow> g_latency s name | Some l \<Rightarrow> Some l)
       \<and> filter (\<lambda>m. message_service m = Some name) (alerts s') =
           filter (\<lambda>m. message_service m = Some name) (alerts s) @
             (if alert_condition (classify (fst (probe url)) (snd (probe url)))
                   (classify (fst (last_status dq)) (snd (last_status dq)))
              then [if classify (fst (probe url)) (snd (probe url)) = DOWN
                    then Down_message name
                    else Slow_message name (the (snd (probe url))) (fst (probe url))]
              else [])"
  using check_sites_at [OF SITES_distinct assms(1) assms(2) [unfolded check_services_def]] .

lemma check_services_total:
  "fst ` set SITES \<subseteq> fst ` set (history s) \<Longrightarrow>
   \<exists>s'. check_services probe clock s = Inr s' \<and> fst ` set (history s') = fst ` set (history s)"
  unfolding check_services_def by (rule check_sites_total)

text \<open>
  The decision of one tick. The condition of line 130 holds exactly when the current
  classification is SLOW or DOWN and differs from the previous one; in a tick of
  \<open>check_services\<close> the messages about an endpoint grow by one in exactly that case, the
  previous classification being that of the latest stored sample.
\<close>

lemma alert_decision_in_tick:
  "alert_condition cur prev = (cur \<in> {SLOW, DOWN} \<and> cur \<noteq> prev)
   \<and> \<not> alert_condition SLOW SLOW
   \<and> \<not> alert_condition DOWN DOWN
   \<and> \<not> alert_condition OK prev
   \<and> ((name, url) \<in> set SITES \<and> map_of (history s) name = Some dq
        \<and> check_services probe clock s = Inr s' \<longrightarrow>
        length (filter (\<lambda>m. message_service m = Some name) (alerts s')) =
        length (filter (\<lambda>m. message_service m = Some name) (alerts s)) +
          (if classify (fst (probe url)) (snd (probe url)) \<in> {SLOW, DOWN}
              \<and> classify (fst (probe url)) (snd (probe url))
                  \<noteq> classify (fst (last_status dq)) (snd (last_status dq))
           then 1 else 0))
   \<and> map (\<lambda>(previous, current). alert_condition current previous)
         (zip (p0 # [OK, DOWN, DOWN, DOWN, OK, DOWN]) [OK, DOWN, DOWN, DOWN, OK, DOWN])
       = [False, True, False, False, False, True]"
proof -
  have tick: "length (filter (\<lambda>m. message_service m = Some name) (alerts s')) =
        length (filter (\<lambda>m. message_service m = Some name) (alerts s)) +
          (if classify (fst (probe url)) (snd (probe url)) \<in> {SLOW, DOWN}
              \<and> classify (fst (probe url)) (snd (probe url))
                  \<noteq> classify (fst (last_status dq)) (snd (last_status dq))
           then 1 else 0)"
    if "(name, url) \<in> set SITES" and "map_of (history s) name = Some dq"
      and "check_services probe clock s = Inr s'"
  proof -
    from check_services_at [OF that(1) that(3)] that(2)
    have "filter (\<lambda>m. message_service m = Some name) (alerts s') =
           filter (\<lambda>m. message_service m = Some name) (alerts s) @
             (if alert_condition (classify (fst (probe url)) (snd (probe url)))
                   (classify (fst (last_status dq)) (snd (last_status dq)))
              then [if classify (fst (probe url)) (snd (probe url)) = DOWN
                    then Down_message name
                    else Slow_message name (the (snd (probe url))) (fst (probe url))]
              else [])"
      by auto
    then show ?thesis by (auto simp: alert_condition_def)
  qed
  have seq: "map (\<lambda>(previous, current). alert_condition current previous)
         (zip (p0 # [OK, DOWN, DOWN, DOWN, OK, DOWN]) [OK, DOWN, DOWN, DOWN, OK, DOWN])
       = [False, True, False, False, False, True]"
    by (simp add: alert_condition_def)
  have "alert_condition cur prev = (cur \<in> {SLOW, DOWN} \<and> cur \<noteq> prev)"
    and "\<not> alert_condition SLOW SLOW" and "\<not> alert_condition DOWN DOWN"
    and "\<not> alert_condition OK prev"
    by (auto simp: alert_condition_def)
  with tick seq show ?thesis by blast
qed

lemma tick_down:
  "check_services (\<lambda>url. (None, None)) (\<lambda>name. 0) initial_monitor =
     Inr \<lparr>history =
            [(''KRA iTax'', [(0, 0, - 1)]), (''eCitizen'', [(0, 0, - 1)]),
             (''NTSA TIMS'', [(0, 0, - 1)]), (''HELB'', [(0, 0, - 1)]),
             (''KUCCPS'', [(0, 0, - 1)])],
          g_up = [''KRA iTax'' \<mapsto> 0, ''eCitizen'' \<mapsto> 0, ''NTSA TIMS'' \<mapsto> 0,
                  ''HELB'' \<mapsto> 0, ''KUCCPS'' \<mapsto> 0],
          g_latency = Map.empty, alerts = []\<rparr>"
  by (simp add: initial_monitor_def SITES_def check_services_def
        check_service_def last_status_def classify_def deque_append_def HISTORY_ENTRIES_def
        py_or_def alert_condition_def)

lemma tick_slow:
  "check_services (\<lambda>url. (Some 503, Some 100)) (\<lambda>name. 0) initial_monitor =
     Inr \<lparr>history =
            [(''KRA iTax'', [(0, 503, 100)]), (''eCitizen'', [(0, 503, 100)]),
             (''NTSA TIMS'', [(0, 503, 100)]), (''HELB'', [(0, 503, 100)]),
             (''KUCCPS'', [(0, 503, 100)])],
          g_up = [''KRA iTax'' \<mapsto> 0, ''eCitizen'' \<mapsto> 0, ''NTSA TIMS'' \<mapsto> 0,
                  ''HELB'' \<mapsto> 0, ''KUCCPS'' \<mapsto> 0],
          g_latency = [''KRA iTax'' \<mapsto> 100, ''eCitizen'' \<mapsto> 100, ''NTSA TIMS'' \<mapsto> 100,
                  ''HELB'' \<mapsto> 100, ''KUCCPS'' \<mapsto> 100],
          alerts =
            [Slow_message ''KRA iTax'' 100 (Some 503), Slow_message ''eCitizen'' 100 (Some 503),
             Slow_message ''NTSA TIMS'' 100 (Some 503), Slow_message ''HELB'' 100 (Some 503),
             Slow_message ''KUCCPS'' 100 (Some 503)]\<rparr>"
  by (simp add: initial_monitor_def SITES_def check_services_def
        check_service_def last_status_def classify_def deque_append_def HISTORY_ENTRIES_def
        py_or_def alert_condition_def compose_message_def send_alert_def SLOW_THRESHOLD_MS_def)

section \<open>First tick, metrics and the stored sample\<close>

text \<open>
  C4. No alert on a first tick that is DOWN: when the history of a configured endpoint is
  empty and \<^verbatim>\<open>measure\<close> returns \<^verbatim>\<open>(None, None)\<close> for it, \<open>check_services\<close> returns and has
  sent no message about that endpoint. (The keys of the sites are in \<open>history\<close> from the
  start and stay there, so the tick does not raise.)
\<close>

theorem first_tick_down_silent:
  "(name, url) \<in> set SITES \<and> fst ` set SITES \<subseteq> fst ` set (history s)
     \<and> map_of (history s) name = Some [] \<and> probe url = (None, None) \<longrightarrow>
   (\<exists>s'. check_services probe clock s = Inr s'
       \<and> filter (\<lambda>m. message_service m = Some name) (alerts s') =
         filter (\<lambda>m. message_service m = Some name) (alerts s))"
proof (intro impI, elim conjE)
  assume site: "(name, url) \<in> set SITES" and keys: "fst ` set SITES \<subseteq> fst ` set (history s)"
    and empty: "map_of (history s) name = Some []" and down: "probe url = (None, None)"
  from check_services_total [OF keys] obtain s' where run: "check_services probe clock s = Inr s'"
    by blast
  have prev: "classify (fst (last_status [])) (snd (last_status [])) = DOWN"
    by (simp add: classify_def last_status_def)
  have cur: "classify (fst (probe url)) (snd (probe url)) = DOWN"
    by (simp add: down classify_def)
  from check_services_at [OF site run] empty
  have "filter (\<lambda>m. message_service m = Some name) (alerts s') =
        filter (\<lambda>m. message_service m = Some name) (alerts s)"
    by (auto simp: prev cur alert_condition_def)
  with run show "\<exists>s'. check_services probe clock s = Inr s'
       \<and> filter (\<lambda>m. message_service m = Some name) (alerts s') =
         filter (\<lambda>m. message_service m = Some name) (alerts s)"
    by blast
qed

theorem first_tick_down_silent_witness:
  "(''HELB'', ''https://studentportal.helb.co.ke'') \<in> set SITES
   \<and> fst ` set SITES \<subseteq> fst ` set (history initial_monitor)
   \<and> map_of (history initial_monitor) ''HELB'' = Some []
   \<and> check_services (\<lambda>url. (None, None)) (\<lambda>name. 0) initial_monitor =
     Inr \<lparr>history =
            [(''KRA iTax'', [(0, 0, - 1)]), (''eCitizen'', [(0, 0, - 1)]),
             (''NTSA TIMS'', [(0, 0, - 1)]), (''HELB'', [(0, 0, - 1)]),
             (''KUCCPS'', [(0, 0, - 1)])],
          g_up = [''KRA iTax'' \<mapsto> 0, ''eCitizen'' \<mapsto> 0, ''NTSA TIMS'' \<mapsto> 0,
                  ''HELB'' \<mapsto> 0, ''KUCCPS'' \<mapsto> 0],
          g_latency = Map.empty, alerts = []\<rparr>
   \<and> filter (\<lambda>m. message_service m = Some ''HELB'') [] =
       filter (\<lambda>m. message_service m = Some ''HELB'') (alerts initial_monitor)"
proof -
  have site: "(''HELB'', ''https://studentportal.helb.co.ke'') \<in> set SITES"
    by (simp add: SITES_def)
  have keys: "fst ` set SITES \<subseteq> fst ` set (history initial_monitor)"
    by (simp add: initial_monitor_def SITES_def)
  have dq: "map_of (history initial_monitor) ''HELB'' = Some []"
    by (simp add: initial_monitor_def SITES_def)
  have down: "(\<lambda>url :: string. (None :: int option, None :: int option))
      ''https://studentportal.helb.co.ke'' = (None, None)"
    by simp
  note silent = first_tick_down_silent [rule_format, OF conjI [OF site conjI [OF keys conjI [OF dq down]]],
      of "\<lambda>name. 0"]
  from silent have "filter (\<lambda>m. message_service m = Some ''HELB'') [] =
       filter (\<lambda>m. message_service m = Some ''HELB'') (alerts initial_monitor)"
    unfolding tick_down by simp
  with site keys dq tick_down show ?thesis by (intro conjI)
qed

text \<open>
  C5, as the code has it. For an endpoint whose history is empty the previous
  classification is DOWN, the classification of an absent code and latency: it differs from
  the current one exactly when that is OK or SLOW. So on such a tick \<open>check_services\<close>
  sends a message about the endpoint exactly when the current classification is SLOW (the
  SLOW text), and none when it is DOWN or OK.
\<close>

theorem empty_history_previous_is_down:
  "classify (fst (last_status [])) (snd (last_status [])) = DOWN
   \<and> (classify (fst (last_status [])) (snd (last_status [])) \<noteq> cur) = (cur \<in> {OK, SLOW})
   \<and> ((name, url) \<in> set SITES \<and> map_of (history s) name = Some []
        \<and> check_services probe clock s = Inr s' \<longrightarrow>
        filter (\<lambda>m. message_service m = Some name) (alerts s') =
        filter (\<lambda>m. message_service m = Some name) (alerts s) @
          (if classify (fst (probe url)) (snd (probe url)) = SLOW
           then [Slow_message name (the (snd (probe url))) (fst (probe url))] else []))"
proof -
  have prev: "classify (fst (last_status [])) (snd (last_status [])) = DOWN"
    by (simp add: classify_def last_status_def)
  have differs: "(classify (fst (last_status [])) (snd (last_status [])) \<noteq> cur) = (cur \<in> {OK, SLOW})"
    unfolding prev by (cases cur) simp_all
  have tick: "filter (\<lambda>m. message_service m = Some name) (alerts s') =
        filter (\<lambda>m. message_service m = Some name) (alerts s) @
          (if classify (fst (probe url)) (snd (probe url)) = SLOW
           then [Slow_message name (the (snd (probe url))) (fst (probe url))] else [])"
    if "(name, url) \<in> set SITES" and "map_of (history s) name = Some []"
      and "check_services probe clock s = Inr s'"
    using check_services_at [OF that(1) that(3)] that(2)
    by (cases "classify (fst (probe url)) (snd (probe url))")
       (auto simp: prev alert_condition_def)
  from prev differs tick show ?thesis by blast
qed

theorem empty_history_previous_is_down_witness:
  "(''HELB'', ''https://studentportal.helb.co.ke'') \<in> set SITES
   \<and> map_of (history initial_monitor) ''HELB'' = Some []
   \<and> check_services (\<lambda>url. (Some 503, Some 100)) (\<lambda>name. 0) initial_monitor =
     Inr \<lparr>history =
            [(''KRA iTax'', [(0, 503, 100)]), (''eCitizen'', [(0, 503, 100)]),
             (''NTSA TIMS'', [(0, 503, 100)]), (''HELB'', [(0, 503, 100)]),
             (''KUCCPS'', [(0, 503, 100)])],
          g_up = [''KRA iTax'' \<mapsto> 0, ''eCitizen'' \<mapsto> 0, ''NTSA TIMS'' \<mapsto> 0,
                  ''HELB'' \<mapsto> 0, ''KUCCPS'' \<mapsto> 0],
          g_latency = [''KRA iTax'' \<mapsto> 100, ''eCitizen'' \<mapsto> 100, ''NTSA TIMS'' \<mapsto> 100,
                  ''HELB'' \<mapsto> 100, ''KUCCPS'' \<mapsto> 100],
          alerts =
            [Slow_message ''KRA iTax'' 100 (Some 503), Slow_message ''eCitizen'' 100 (Some 503),
             Slow_message ''NTSA TIMS'' 100 (Some 503), Slow_message ''HELB'' 100 (Some 503),
             Slow_message ''KUCCPS'' 100 (Some 503)]\<rparr>
   \<and> filter (\<lambda>m. message_service m = Some ''HELB'')
        [Slow_message ''KRA iTax'' 100 (Some 503), Slow_message ''eCitizen'' 100 (Some 503),
         Slow_message ''NTSA TIMS'' 100 (Some 503), Slow_message ''HELB'' 100 (Some 503),
         Slow_message ''KUCCPS'' 100 (Some 503)] =
       filter (\<lambda>m. message_service m = Some ''HELB'') (alerts initial_monitor) @
         [Slow_message ''HELB'' 100 (Some 503)]"
proof -
  have site: "(''HELB'', ''https://studentportal.helb.co.ke'') \<in> set SITES"
    by (simp add: SITES_def)
  have dq: "map_of (history initial_monitor) ''HELB'' = Some []"
    by (simp add: initial_monitor_def SITES_def)
  have cur: "classify (fst (Some 503, Some 100)) (snd (Some 503 :: int option, Some 100 :: int option)) = SLOW"
    by (simp add: classify_def)
  note first = empty_history_previous_is_down [THEN conjunct2, THEN conjunct2, rule_format,
      OF conjI [OF site conjI [OF dq tick_slow]]]
  from first have "filter (\<lambda>m. message_service m = Some ''HELB'')
        [Slow_message ''KRA iTax'' 100 (Some 503), Slow_message ''eCitizen'' 100 (Some 503),
         Slow_message ''NTSA TIMS'' 100 (Some 503), Slow_message ''HELB'' 100 (Some 503),
         Slow_message ''KUCCPS'' 100 (Some 503)] =
       filter (\<lambda>m. message_service m = Some ''HELB'') (alerts initial_monitor) @
         [Slow_message ''HELB'' 100 (Some 503)]"
    by (simp add: cur initial_monitor_def)
  with site dq tick_slow show ?thesis by (intro conjI)
qed

text \<open>
  C5 as stated fails at the current classification DOWN: the previous classification of an
  empty history is DOWN itself.
\<close>

theorem empty_history_previous_counterexample:
  "\<not> (classify (fst (last_status [])) (snd (last_status [])) \<noteq> DOWN)"
  by (simp add: classify_def last_status_def)

text \<open>
  C8, as the code has it. After a tick, \<open>service_up\<close> of a configured endpoint is 1 if its
  current classification is OK and 0 otherwise; \<open>service_latency_ms\<close> is the latency of this
  tick when there is one, and otherwise what it was before the tick (absent only if no
  earlier tick has set it).
\<close>

theorem metrics_after_tick:
  "(name, url) \<in> set SITES \<and> check_services probe clock s = Inr s' \<longrightarrow>
     g_up s' name = Some (if classify (fst (probe url)) (snd (probe url)) = OK then 1 else 0)
     \<and> g_latency s' name =
         (case snd (probe url) of None \<Rightarrow> g_latency s name | Some l \<Rightarrow> Some l)"
proof (intro impI, elim conjE)
  assume "(name, url) \<in> set SITES" and "check_services probe clock s = Inr s'"
  from check_services_at [OF this]
  show "g_up s' name = Some (if classify (fst (probe url)) (snd (probe url)) = OK then 1 else 0)
     \<and> g_latency s' name =
         (case snd (probe url) of None \<Rightarrow> g_latency s name | Some l \<Rightarrow> Some l)"
    by blast
qed

theorem metrics_after_tick_witness:
  "(''HELB'', ''https://studentportal.helb.co.ke'') \<in> set SITES
   \<and> check_services (\<lambda>url. (Some 503, Some 100)) (\<lambda>name. 0) initial_monitor =
     Inr \<lparr>history =
            [(''KRA iTax'', [(0, 503, 100)]), (''eCitizen'', [(0, 503, 100)]),
             (''NTSA TIMS'', [(0, 503, 100)]), (''HELB'', [(0, 503, 100)]),
             (''KUCCPS'', [(0, 503, 100)])],
          g_up = [''KRA iTax'' \<mapsto> 0, ''eCitizen'' \<mapsto> 0, ''NTSA TIMS'' \<mapsto> 0,
                  ''HELB'' \<mapsto> 0, ''KUCCPS'' \<mapsto> 0],
          g_latency = [''KRA iTax'' \<mapsto> 100, ''eCitizen'' \<mapsto> 100, ''NTSA TIMS'' \<mapsto> 100,
                  ''HELB'' \<mapsto> 100, ''KUCCPS'' \<mapsto> 100],
          alerts =
            [Slow_message ''KRA iTax'' 100 (Some 503), Slow_message ''eCitizen'' 100 (Some 503),
             Slow_message ''NTSA TIMS'' 100 (Some 503), Slow_message ''HELB'' 100 (Some 503),
             Slow_message ''KUCCPS'' 100 (Some 503)]\<rparr>
   \<and> [''KRA iTax'' \<mapsto> 0 :: int, ''eCitizen'' \<mapsto> 0, ''NTSA TIMS'' \<mapsto> 0,
       ''HELB'' \<mapsto> 0, ''KUCCPS'' \<mapsto> 0] ''HELB'' = Some 0
   \<and> [''KRA iTax'' \<mapsto> 100 :: int, ''eCitizen'' \<mapsto> 100, ''NTSA TIMS'' \<mapsto> 100,
       ''HELB'' \<mapsto> 100, ''KUCCPS'' \<mapsto> 100] ''HELB'' = Some 100"
proof -
  have site: "(''HELB'', ''https://studentportal.helb.co.ke'') \<in> set SITES"
    by (simp add: SITES_def)
  note m = metrics_after_tick [rule_format, OF conjI [OF site tick_slow]]
  from m [THEN conjunct1] have up: "[''KRA iTax'' \<mapsto> 0 :: int, ''eCitizen'' \<mapsto> 0,
       ''NTSA TIMS'' \<mapsto> 0, ''HELB'' \<mapsto> 0, ''KUCCPS'' \<mapsto> 0] ''HELB'' = Some 0"
    by simp
  from m [THEN conjunct2] have lat: "[''KRA iTax'' \<mapsto> 100 :: int, ''eCitizen'' \<mapsto> 100,
       ''NTSA TIMS'' \<mapsto> 100, ''HELB'' \<mapsto> 100, ''KUCCPS'' \<mapsto> 100] ''HELB'' = Some 100"
    by simp
  from site tick_slow up lat show ?thesis by (intro conjI)
qed

text \<open>
  C8 as stated fails after a tick with latency 100 followed by a tick whose probe fails:
  \<open>service_latency_ms\<close> still shows 100.
\<close>

theorem stale_latency_counterexample:
  "(case main_run No_file
           [(\<lambda>url. (Some 200, Some 100), \<lambda>name. 0), (\<lambda>url. (None, None), \<lambda>name. 300)] of
      Inl e \<Rightarrow> None
    | Inr s \<Rightarrow> g_latency s ''HELB'') = Some 100"
  by (simp add: main_run_def load_history_def initial_monitor_def SITES_def check_services_def
        check_service_def last_status_def classify_def deque_append_def HISTORY_ENTRIES_def
        py_or_def alert_condition_def compose_message_def send_alert_def SLOW_THRESHOLD_MS_def)

lemma deque_append_last:
  assumes "0 < n"
  shows "deque_append n dq x \<noteq> [] \<and> last (deque_append n dq x) = x"
proof (cases dq)
  case Nil
  then show ?thesis using assms by (simp add: deque_append_def Let_def)
next
  case (Cons a dq')
  then show ?thesis by (simp add: deque_append_def Let_def)
qed

lemma last_status_deque_append:
  "last_status (deque_append HISTORY_ENTRIES dq (ts, c, l)) =
     (if c = 0 then None else Some c, if l = - 1 then None else Some l)"
proof -
  have "0 < HISTORY_ENTRIES" by (simp add: HISTORY_ENTRIES_def)
  from deque_append_last [OF this, of dq "(ts, c, l)"] show ?thesis
    by (simp add: last_status_def)
qed

lemma read_back_exact:
  assumes "code \<noteq> Some 0" and "latency \<noteq> Some 0" and "latency \<noteq> Some (- 1)"
  shows "last_status (deque_append HISTORY_ENTRIES dq (ts, py_or code 0, py_or latency (- 1)))
         = (code, latency)"
  using assms unfolding last_status_deque_append
  by (cases code; cases latency) (simp_all add: py_or_def)

text \<open>
  C6 at a sample with code 200 and latency 0: \<^verbatim>\<open>latency or -1\<close> stores -1 for the latency 0,
  and the read returns an absent latency for a sample whose latency was present. The
  sample was classified OK when it was measured and is DOWN when it is read back.
\<close>

theorem latest_after_append_zero_latency:
  "last_status (deque_append HISTORY_ENTRIES dq (ts, py_or (Some 200) 0, py_or (Some 0) (- 1)))
     = (Some 200, None)
   \<and> classify (Some 200) (Some 0) = OK
   \<and> classify (Some 200) None = DOWN"
  unfolding last_status_deque_append
  by (simp add: py_or_def classify_def SLOW_THRESHOLD_MS_def)

lemma zero_latency_masks_outage:
  "main_run No_file
     [(\<lambda>url. (Some 200, Some 0), \<lambda>name. 0), (\<lambda>url. (None, None), \<lambda>name. 300)] =
   Inr \<lparr>history =
          [(''KRA iTax'', [(0, 200, - 1), (300, 0, - 1)]),
           (''eCitizen'', [(0, 200, - 1), (300, 0, - 1)]),
           (''NTSA TIMS'', [(0, 200, - 1), (300, 0, - 1)]),
           (''HELB'', [(0, 200, - 1), (300, 0, - 1)]),
           (''KUCCPS'', [(0, 200, - 1), (300, 0, - 1)])],
        g_up = [''KRA iTax'' \<mapsto> 0, ''eCitizen'' \<mapsto> 0, ''NTSA TIMS'' \<mapsto> 0,
                ''HELB'' \<mapsto> 0, ''KUCCPS'' \<mapsto> 0],
        g_latency = [''KRA iTax'' \<mapsto> 0, ''eCitizen'' \<mapsto> 0, ''NTSA TIMS'' \<mapsto> 0,
                ''HELB'' \<mapsto> 0, ''KUCCPS'' \<mapsto> 0],
        alerts = []\<rparr>"
  by (simp add: main_run_def load_history_def initial_monitor_def SITES_def check_services_def
        check_service_def last_status_def classify_def deque_append_def HISTORY_ENTRIES_def
        py_or_def alert_condition_def compose_message_def send_alert_def SLOW_THRESHOLD_MS_def)

section \<open>Persistence round trip\<close>

lemma load_entries_well_formed:
  "Malformed_entry \<notin> set es \<Longrightarrow> snd (load_entries dq es) = None"
  by (induction dq es rule: load_entries.induct) simp_all

lemma load_entries_triples:
  "load_entries dq (map (\<lambda>(ts, code, lat). Triple ts code lat) es) =
     (foldl (deque_append HISTORY_ENTRIES) dq es, None)"
  by (induction es arbitrary: dq) (simp_all split: prod.splits)

lemma load_items_lookup:
  assumes "distinct (map fst data)"
    and "\<forall>(n, es) \<in> set data. Malformed_entry \<notin> set es"
  shows "map_of (load_items h data) name =
     (case map_of data name of
        None \<Rightarrow> map_of h name
      | Some es \<Rightarrow>
          Some (fst (load_entries (case map_of h name of None \<Rightarrow> [] | Some d \<Rightarrow> d)
                       (drop (length es - HISTORY_ENTRIES) es))))"
  using assms
proof (induction data arbitrary: h)
  case Nil
  then show ?case by simp
next
  case (Cons item data)
  obtain n entries where item: "item = (n, entries)" by (cases item)
  define dq where "dq = (case map_of h n of None \<Rightarrow> [] | Some d \<Rightarrow> d)"
  define res where "res = load_entries dq (drop (length entries - HISTORY_ENTRIES) entries)"
  from Cons.prems(2) have "Malformed_entry \<notin> set entries" by (simp add: item)
  then have "Malformed_entry \<notin> set (drop (length entries - HISTORY_ENTRIES) entries)"
    by (auto dest: in_set_dropD)
  then have ok: "snd res = None" unfolding res_def by (rule load_entries_well_formed)
  have step: "load_items h (item # data) = load_items (AList.update n (fst res) h) data"
    unfolding item load_items_step using ok by (simp add: Let_def res_def dq_def)
  from Cons.prems have dist: "distinct (map fst data)"
    and wf: "\<forall>(n, es) \<in> set data. Malformed_entry \<notin> set es"
    and fresh: "n \<notin> fst ` set data"
    by (auto simp: item)
  note IH = Cons.IH [OF dist wf, of "AList.update n (fst res) h"]
  show ?case
  proof (cases "name = n")
    case True
    with fresh have "map_of data name = None" by (simp add: map_of_eq_None_iff)
    with IH show ?thesis
      unfolding step by (simp add: True item update_conv' res_def dq_def)
  next
    case False
    then have other: "map_of (AList.update n (fst res) h) name = map_of h name"
      by (simp add: update_conv')
    from False IH [unfolded other] show ?thesis
      unfolding step by (simp add: item)
  qed
qed

lemma initial_deques_empty:
  "(case map_of (history initial_monitor) name of None \<Rightarrow> [] | Some d \<Rightarrow> d) = []"
proof (cases "map_of (history initial_monitor) name")
  case None
  then show ?thesis by simp
next
  case (Some d)
  then have "(name, d) \<in> set (history initial_monitor)" by (rule map_of_SomeD)
  then have "d = []" by (auto simp: initial_monitor_def)
  with Some show ?thesis by simp
qed

lemma load_saved_deque:
  "fst (load_entries []
          (drop (length (map (\<lambda>(ts, code, lat). Triple ts code lat) d) - HISTORY_ENTRIES)
             (map (\<lambda>(ts, code, lat). Triple ts code lat) d))) =
   drop (length d - HISTORY_ENTRIES) d"
proof -
  have "drop (length (map (\<lambda>(ts, code, lat). Triple ts code lat) d) - HISTORY_ENTRIES)
          (map (\<lambda>(ts, code, lat). Triple ts code lat) d) =
        map (\<lambda>(ts, code, lat). Triple ts code lat) (drop (length d - HISTORY_ENTRIES) d)"
    by (simp add: drop_map)
  then show ?thesis
    by (simp only: load_entries_triples foldl_deque_append_empty fst_conv) simp
qed

lemma load_saved_lookup:
  assumes "distinct (map fst (history s))" and "map_of (history s) name = Some d"
  shows "map_of (history (load_history (save_history s) initial_monitor)) name =
         Some (drop (length d - HISTORY_ENTRIES) d)"
proof -
  define data where
    "data = map (\<lambda>(n, d). (n, map (\<lambda>(ts, code, lat). Triple ts code lat) d)) (history s)"
  have keys: "map fst data = map fst (history s)"
    by (simp add: data_def case_prod_unfold)
  have dist: "distinct (map fst data)" using assms(1) by (simp only: keys)
  have wf: "\<forall>(n, es) \<in> set data. Malformed_entry \<notin> set es"
    by (auto simp: data_def)
  have look: "map_of data name = Some (map (\<lambda>(ts, code, lat). Triple ts code lat) d)"
    using assms(2) unfolding data_def by (simp add: map_of_map)
  have "history (load_history (save_history s) initial_monitor) =
          load_items (history initial_monitor) data"
    by (simp add: load_history_def save_history_def data_def)
  then show ?thesis
    by (simp only: load_items_lookup [OF dist wf] look option.case initial_deques_empty
          load_saved_deque)
qed

lemma check_service_distinct:
  assumes "distinct (map fst (history s))" and "check_service probe clock s site = Inr s'"
  shows "distinct (map fst (history s'))"
proof -
  obtain name url where site: "site = (name, url)" by (cases site)
  from check_service_history [OF assms(2) [unfolded site]] assms(1)
  show ?thesis by (auto simp: distinct_update)
qed

lemma check_sites_distinct:
  "distinct (map fst (history s)) \<Longrightarrow> check_sites probe clock sites s = Inr s' \<Longrightarrow>
   distinct (map fst (history s'))"
proof (induction sites arbitrary: s)
  case Nil
  then show ?case by simp
next
  case (Cons site sites)
  from Cons.prems(2) obtain s1 where s1: "check_service probe clock s site = Inr s1"
    and rest: "check_sites probe clock sites s1 = Inr s'"
    by (auto split: sum.splits)
  from Cons.IH [OF check_service_distinct [OF Cons.prems(1) s1] rest] show ?case .
qed

lemma run_ticks_distinct:
  "distinct (map fst (history s)) \<Longrightarrow> run_ticks ticks s = Inr s' \<Longrightarrow>
   distinct (map fst (history s'))"
proof (induction ticks arbitrary: s)
  case Nil
  then show ?case by simp
next
  case (Cons tick ticks)
  obtain probe clock where tick: "tick = (probe, clock)" by (cases tick)
  from Cons.prems(2) obtain s1 where s1: "check_sites probe clock SITES s = Inr s1"
    and rest: "run_ticks ticks s1 = Inr s'"
    by (auto simp: tick check_services_def split: sum.splits)
  from Cons.IH [OF check_sites_distinct [OF Cons.prems(1) s1] rest] show ?case .
qed

lemma load_items_distinct:
  "distinct (map fst h) \<Longrightarrow> distinct (map fst (load_items h data))"
proof (induction data arbitrary: h)
  case Nil
  then show ?case by simp
next
  case (Cons item data)
  obtain n entries where item: "item = (n, entries)" by (cases item)
  have upd: "distinct (map fst (AList.update n v h))" for v
    using Cons.prems by (rule distinct_update)
  show ?case
    unfolding item load_items_step using Cons.IH [OF upd] upd Cons.prems
    by (simp add: Let_def)
qed

lemma main_run_distinct:
  assumes "main_run file ticks = Inr s"
  shows "distinct (map fst (history s))"
proof -
  have init: "distinct (map fst (history initial_monitor))"
  proof -
    have "map fst (history initial_monitor) = map fst SITES"
      by (simp add: initial_monitor_def case_prod_unfold comp_def)
    with SITES_distinct show ?thesis by simp
  qed
  have "distinct (map fst (history (load_history file initial_monitor)))"
  proof (cases "file")
    case (Json_object data)
    then show ?thesis using load_items_distinct [OF init, of data] by (simp add: load_history_def)
  qed (simp_all add: load_history_def init)
  from run_ticks_distinct [OF this assms [unfolded main_run_def]] show ?thesis .
qed

text \<open>
  C7. Saving a history and loading the file into a fresh process gives, for every
  endpoint of the saved history, the same sequence of (timestamp, code, latency) cut to its
  last \<open>HISTORY_ENTRIES\<close> entries; for a history the program has reached (at most
  \<open>HISTORY_ENTRIES\<close> entries per endpoint) that is the saved sequence itself. The keys of a
  \<^verbatim>\<open>dict\<close> are distinct; \<open>load_history\<close> runs once, at the start of \<^verbatim>\<open>__main__\<close>, on the
  initial state.
\<close>

theorem persistence_roundtrip:
  "(distinct (map fst (history s)) \<and> map_of (history s) name = Some d \<longrightarrow>
      map_of (history (load_history (save_history s) initial_monitor)) name =
      Some (drop (length d - HISTORY_ENTRIES) d))
   \<and> (main_run file ticks = Inr s \<and> map_of (history s) name = Some d \<longrightarrow>
      map_of (history (load_history (save_history s) initial_monitor)) name = Some d)"
proof (intro conjI impI)
  assume "distinct (map fst (history s)) \<and> map_of (history s) name = Some d"
  then show "map_of (history (load_history (save_history s) initial_monitor)) name =
      Some (drop (length d - HISTORY_ENTRIES) d)"
    using load_saved_lookup by blast
next
  assume a: "main_run file ticks = Inr s \<and> map_of (history s) name = Some d"
  then have "length d \<le> HISTORY_ENTRIES"
    using map_of_bounded [OF main_run_bounded] by blast
  moreover from a have "map_of (history (load_history (save_history s) initial_monitor)) name =
      Some (drop (length d - HISTORY_ENTRIES) d)"
    using load_saved_lookup [OF main_run_distinct] by blast
  ultimately show "map_of (history (load_history (save_history s) initial_monitor)) name = Some d"
    by simp
qed

theorem persistence_roundtrip_witness:
  "distinct (map fst (history
      \<lparr>history = [(''HELB'', replicate 289 (0, 200, 100))], g_up = Map.empty,
       g_latency = Map.empty, alerts = []\<rparr>))
   \<and> map_of (history
      \<lparr>history = [(''HELB'', replicate 289 (0, 200, 100))], g_up = Map.empty,
       g_latency = Map.empty, alerts = []\<rparr>) ''HELB'' = Some (replicate 289 (0, 200, 100))
   \<and> map_of (history (load_history (save_history
      \<lparr>history = [(''HELB'', replicate 289 (0, 200, 100))], g_up = Map.empty,
       g_latency = Map.empty, alerts = []\<rparr>) initial_monitor)) ''HELB'' =
      Some (replicate 288 (0, 200, 100))
   \<and> main_run No_file [(\<lambda>url. (None, None), \<lambda>name. 0)] =
       Inr \<lparr>history =
              [(''KRA iTax'', [(0, 0, - 1)]), (''eCitizen'', [(0, 0, - 1)]),
               (''NTSA TIMS'', [(0, 0, - 1)]), (''HELB'', [(0, 0, - 1)]),
               (''KUCCPS'', [(0, 0, - 1)])],
            g_up = [''KRA iTax'' \<mapsto> 0, ''eCitizen'' \<mapsto> 0, ''NTSA TIMS'' \<mapsto> 0,
                    ''HELB'' \<mapsto> 0, ''KUCCPS'' \<mapsto> 0],
            g_latency = Map.empty, alerts = []\<rparr>
   \<and> map_of (history (load_history (save_history
       \<lparr>history =
              [(''KRA iTax'', [(0, 0, - 1)]), (''eCitizen'', [(0, 0, - 1)]),
               (''NTSA TIMS'', [(0, 0, - 1)]), (''HELB'', [(0, 0, - 1)]),
               (''KUCCPS'', [(0, 0, - 1)])],
            g_up = [''KRA iTax'' \<mapsto> 0, ''eCitizen'' \<mapsto> 0, ''NTSA TIMS'' \<mapsto> 0,
                    ''HELB'' \<mapsto> 0, ''KUCCPS'' \<mapsto> 0],
            g_latency = Map.empty, alerts = []\<rparr>) initial_monitor)) ''HELB'' = Some [(0, 0, - 1)]"
proof -
  let ?big = "\<lparr>history = [(''HELB'', replicate 289 (0 :: real, 200 :: int, 100 :: int))],
       g_up = (Map.empty :: string \<rightharpoonup> int), g_latency = (Map.empty :: string \<rightharpoonup> int),
       alerts = []\<rparr>"
  let ?ticks = "[(\<lambda>url :: string. (None :: int option, None :: int option),
                  \<lambda>name :: string. 0 :: real)]"
  let ?s = "\<lparr>history =
              [(''KRA iTax'', [(0 :: real, 0 :: int, - 1 :: int)]), (''eCitizen'', [(0, 0, - 1)]),
               (''NTSA TIMS'', [(0, 0, - 1)]), (''HELB'', [(0, 0, - 1)]),
               (''KUCCPS'', [(0, 0, - 1)])],
            g_up = [''KRA iTax'' \<mapsto> 0 :: int, ''eCitizen'' \<mapsto> 0, ''NTSA TIMS'' \<mapsto> 0,
                    ''HELB'' \<mapsto> 0, ''KUCCPS'' \<mapsto> 0],
            g_latency = (Map.empty :: string \<rightharpoonup> int), alerts = []\<rparr>"
  have d1: "distinct (map fst (history ?big))" by simp
  have l1: "map_of (history ?big) ''HELB'' = Some (replicate 289 (0, 200, 100))" by simp
  have run: "main_run No_file ?ticks = Inr ?s" by (rule one_tick)
  have l2: "map_of (history ?s) ''HELB'' = Some [(0, 0, - 1)]" by simp
  note r1 = persistence_roundtrip [THEN conjunct1, rule_format, OF conjI [OF d1 l1]]
  note r2 = persistence_roundtrip [THEN conjunct2, rule_format, OF conjI [OF run l2]]
  from r1 have t1: "map_of (history (load_history (save_history ?big) initial_monitor)) ''HELB'' =
      Some (replicate 288 (0, 200, 100))"
    by (simp add: HISTORY_ENTRIES_def)
  from d1 l1 t1 run r2 show ?thesis by (intro conjI)
qed

section \<open>Names that only the file knows\<close>

lemma load_items_keys:
  assumes "\<forall>(n, es) \<in> set data. Malformed_entry \<notin> set es"
  shows "fst ` set (load_items h data) = fst ` set h \<union> fst ` set data"
  using assms
proof (induction data arbitrary: h)
  case Nil
  then show ?case by simp
next
  case (Cons item data)
  obtain n entries where item: "item = (n, entries)" by (cases item)
  define dq where "dq = (case map_of h n of None \<Rightarrow> [] | Some d \<Rightarrow> d)"
  define res where "res = load_entries dq (drop (length entries - HISTORY_ENTRIES) entries)"
  from Cons.prems have "Malformed_entry \<notin> set entries" by (simp add: item)
  then have "Malformed_entry \<notin> set (drop (length entries - HISTORY_ENTRIES) entries)"
    by (auto dest: in_set_dropD)
  then have ok: "snd res = None" unfolding res_def by (rule load_entries_well_formed)
  have step: "load_items h (item # data) = load_items (AList.update n (fst res) h) data"
    unfolding item load_items_step using ok by (simp add: Let_def res_def dq_def)
  from Cons.prems have wf: "\<forall>(n, es) \<in> set data. Malformed_entry \<notin> set es" by simp
  from Cons.IH [OF wf, of "AList.update n (fst res) h"] show ?case
    unfolding step dom_update by (auto simp: item)
qed

lemma dashboard_names: "svc_name ` set (dashboard s) = fst ` set (history s)"
  by (force simp: dashboard_def split: prod.splits)

text \<open>
  C10. Loading a persistence file (every element of its arrays a triple) puts every name of
  the file into \<open>history\<close>, configured or not; the dashboard, which goes through all of
  \<open>history\<close>, has a row for it; and for a name that is not among the sites a tick of
  \<open>check_services\<close> leaves its history and its gauges as they were: it is never probed.
\<close>

theorem load_inserts_every_name:
  "(\<forall>(n, es) \<in> set data. Malformed_entry \<notin> set es) \<and> name \<in> fst ` set data \<longrightarrow>
     name \<in> fst ` set (history (load_history (Json_object data) s))
     \<and> name \<in> svc_name ` set (dashboard (load_history (Json_object data) s))
     \<and> (name \<notin> fst ` set SITES
          \<and> check_services probe clock (load_history (Json_object data) s) = Inr s' \<longrightarrow>
          map_of (history s') name = map_of (history (load_history (Json_object data) s)) name
          \<and> g_up s' name = g_up s name
          \<and> g_latency s' name = g_latency s name)"
proof (intro impI, elim conjE)
  assume wf: "\<forall>(n, es) \<in> set data. Malformed_entry \<notin> set es" and mem: "name \<in> fst ` set data"
  have h: "history (load_history (Json_object data) s) = load_items (history s) data"
    and up: "g_up (load_history (Json_object data) s) = g_up s"
    and lat: "g_latency (load_history (Json_object data) s) = g_latency s"
    by (simp_all add: load_history_def)
  have key: "name \<in> fst ` set (history (load_history (Json_object data) s))"
    unfolding h load_items_keys [OF wf] using mem by simp
  moreover have "name \<in> svc_name ` set (dashboard (load_history (Json_object data) s))"
    unfolding dashboard_names by (rule key)
  moreover have "map_of (history s') name = map_of (history (load_history (Json_object data) s)) name
          \<and> g_up s' name = g_up s name \<and> g_latency s' name = g_latency s name"
    if "name \<notin> fst ` set SITES"
      and "check_services probe clock (load_history (Json_object data) s) = Inr s'"
    using check_sites_frame [OF that(1) that(2) [unfolded check_services_def]]
    by (simp add: up lat)
  ultimately show "name \<in> fst ` set (history (load_history (Json_object data) s))
     \<and> name \<in> svc_name ` set (dashboard (load_history (Json_object data) s))
     \<and> (name \<notin> fst ` set SITES
          \<and> check_services probe clock (load_history (Json_object data) s) = Inr s' \<longrightarrow>
          map_of (history s') name = map_of (history (load_history (Json_object data) s)) name
          \<and> g_up s' name = g_up s name
          \<and> g_latency s' name = g_latency s name)"
    by blast
qed

lemma load_unknown_name:
  "load_history (Json_object [(''Huduma'', [Triple 1 200 100])]) initial_monitor =
     \<lparr>history =
        [(''KRA iTax'', []), (''eCitizen'', []), (''NTSA TIMS'', []), (''HELB'', []),
         (''KUCCPS'', []), (''Huduma'', [(1, 200, 100)])],
      g_up = Map.empty, g_latency = Map.empty, alerts = []\<rparr>"
  by (simp add: load_history_def initial_monitor_def SITES_def deque_append_def
        HISTORY_ENTRIES_def)

lemma tick_after_load:
  "check_services (\<lambda>url. (None, None)) (\<lambda>name. 0)
     \<lparr>history =
        [(''KRA iTax'', []), (''eCitizen'', []), (''NTSA TIMS'', []), (''HELB'', []),
         (''KUCCPS'', []), (''Huduma'', [(1, 200, 100)])],
      g_up = Map.empty, g_latency = Map.empty, alerts = []\<rparr> =
   Inr \<lparr>history =
          [(''KRA iTax'', [(0, 0, - 1)]), (''eCitizen'', [(0, 0, - 1)]),
           (''NTSA TIMS'', [(0, 0, - 1)]), (''HELB'', [(0, 0, - 1)]),
           (''KUCCPS'', [(0, 0, - 1)]), (''Huduma'', [(1, 200, 100)])],
        g_up = [''KRA iTax'' \<mapsto> 0, ''eCitizen'' \<mapsto> 0, ''NTSA TIMS'' \<mapsto> 0,
                ''HELB'' \<mapsto> 0, ''KUCCPS'' \<mapsto> 0],
        g_latency = Map.empty, alerts = []\<rparr>"
  by (simp add: SITES_def check_services_def
        check_service_def last_status_def classify_def deque_append_def HISTORY_ENTRIES_def
        py_or_def alert_condition_def)

lemma dashboard_after_load:
  "dashboard
     \<lparr>history =
        [(''KRA iTax'', []), (''eCitizen'', []), (''NTSA TIMS'', []), (''HELB'', []),
         (''KUCCPS'', []), (''Huduma'', [(1, 200, 100)])],
      g_up = Map.empty, g_latency = Map.empty, alerts = []\<rparr> =
   [\<lparr>svc_name = ''HELB'', svc_code = None, svc_latency = None, svc_state = DOWN\<rparr>,
    \<lparr>svc_name = ''Huduma'', svc_code = Some 200, svc_latency = Some 100, svc_state = OK\<rparr>,
    \<lparr>svc_name = ''KRA iTax'', svc_code = None, svc_latency = None, svc_state = DOWN\<rparr>,
    \<lparr>svc_name = ''KUCCPS'', svc_code = None, svc_latency = None, svc_state = DOWN\<rparr>,
    \<lparr>svc_name = ''NTSA TIMS'', svc_code = None, svc_latency = None, svc_state = DOWN\<rparr>,
    \<lparr>svc_name = ''eCitizen'', svc_code = None, svc_latency = None, svc_state = DOWN\<rparr>]"
  by (simp add: dashboard_def last_status_def classify_def SLOW_THRESHOLD_MS_def
        less_eq_char_def less_char_def)

theorem load_inserts_every_name_witness:
  "''Huduma'' \<in> fst ` set [(''Huduma'', [Triple 1 200 100])]
   \<and> ''Huduma'' \<notin> fst ` set SITES
   \<and> ''Huduma'' \<in> fst ` set (history
         (load_history (Json_object [(''Huduma'', [Triple 1 200 100])]) initial_monitor))
   \<and> ''Huduma'' \<in> svc_name ` set (dashboard
         (load_history (Json_object [(''Huduma'', [Triple 1 200 100])]) initial_monitor))
   \<and> check_services (\<lambda>url. (None, None)) (\<lambda>name. 0)
         (load_history (Json_object [(''Huduma'', [Triple 1 200 100])]) initial_monitor) =
       Inr \<lparr>history =
          [(''KRA iTax'', [(0, 0, - 1)]), (''eCitizen'', [(0, 0, - 1)]),
           (''NTSA TIMS'', [(0, 0, - 1)]), (''HELB'', [(0, 0, - 1)]),
           (''KUCCPS'', [(0, 0, - 1)]), (''Huduma'', [(1, 200, 100)])],
        g_up = [''KRA iTax'' \<mapsto> 0, ''eCitizen'' \<mapsto> 0, ''NTSA TIMS'' \<mapsto> 0,
                ''HELB'' \<mapsto> 0, ''KUCCPS'' \<mapsto> 0],
        g_latency = Map.empty, alerts = []\<rparr>
   \<and> map_of (history
         (load_history (Json_object [(''Huduma'', [Triple 1 200 100])]) initial_monitor))
         ''Huduma'' = Some [(1, 200, 100)]"
proof -
  let ?data = "[(''Huduma'', [Triple 1 200 100])]"
  let ?s' = "\<lparr>history =
          [(''KRA iTax'', [(0 :: real, 0 :: int, - 1 :: int)]), (''eCitizen'', [(0, 0, - 1)]),
           (''NTSA TIMS'', [(0, 0, - 1)]), (''HELB'', [(0, 0, - 1)]),
           (''KUCCPS'', [(0, 0, - 1)]), (''Huduma'', [(1, 200, 100)])],
        g_up = [''KRA iTax'' \<mapsto> 0 :: int, ''eCitizen'' \<mapsto> 0, ''NTSA TIMS'' \<mapsto> 0,
                ''HELB'' \<mapsto> 0, ''KUCCPS'' \<mapsto> 0],
        g_latency = (Map.empty :: string \<rightharpoonup> int), alerts = []\<rparr>"
  have wf: "\<forall>(n, es) \<in> set ?data. Malformed_entry \<notin> set es" by simp
  have mem: "''Huduma'' \<in> fst ` set ?data" by simp
  have unknown: "''Huduma'' \<notin> fst ` set SITES" by (simp add: SITES_def)
  have tick: "check_services (\<lambda>url. (None, None)) (\<lambda>name. 0)
      (load_history (Json_object ?data) initial_monitor) = Inr ?s'"
    unfolding load_unknown_name by (rule tick_after_load)
  note ins = load_inserts_every_name [rule_format, OF conjI [OF wf mem], of initial_monitor]
  note key = ins [THEN conjunct1] and shown = ins [THEN conjunct2, THEN conjunct1]
  note kept = ins [THEN conjunct2, THEN conjunct2, rule_format, OF conjI [OF unknown tick],
      THEN conjunct1]
  from kept have look: "map_of (history (load_history (Json_object ?data) initial_monitor))
      ''Huduma'' = Some [(1, 200, 100)]"
    by simp
  from mem unknown key shown tick look show ?thesis by (intro conjI)
qed

section \<open>The whole run\<close>

text \<open>
  The probe loop never raises: the keys of the sites are in \<open>history\<close> from the start,
  loading only adds keys, and a tick keeps them. (A loaded triple holds numbers here, as
  \<open>save_history\<close> writes them.)
\<close>

lemma load_items_keys_mono: "fst ` set h \<subseteq> fst ` set (load_items h data)"
proof (induction data arbitrary: h)
  case Nil
  then show ?case by simp
next
  case (Cons item data)
  obtain n entries where item: "item = (n, entries)" by (cases item)
  define dq where "dq = (case map_of h n of None \<Rightarrow> [] | Some d \<Rightarrow> d)"
  define res where "res = load_entries dq (drop (length entries - HISTORY_ENTRIES) entries)"
  have upd: "fst ` set h \<subseteq> fst ` set (AList.update n (fst res) h)"
    unfolding dom_update by blast
  also have "\<dots> \<subseteq> fst ` set (load_items (AList.update n (fst res) h) data)"
    by (rule Cons.IH)
  finally have rest: "fst ` set h \<subseteq> fst ` set (load_items (AList.update n (fst res) h) data)" .
  have "load_items h (item # data) =
          (if snd res = None then load_items (AList.update n (fst res) h) data
           else if dq = [] then h else AList.update n (fst res) h)"
    unfolding item load_items_step res_def dq_def by (simp add: Let_def)
  with rest upd show ?case by simp
qed

lemma run_ticks_total:
  "fst ` set SITES \<subseteq> fst ` set (history s) \<Longrightarrow>
   \<exists>s'. run_ticks ticks s = Inr s' \<and> fst ` set SITES \<subseteq> fst ` set (history s')"
proof (induction ticks arbitrary: s)
  case Nil
  then show ?case by simp
next
  case (Cons tick ticks)
  obtain probe clock where tick: "tick = (probe, clock)" by (cases tick)
  from check_services_total [OF Cons.prems, of probe clock]
  obtain s1 where s1: "check_services probe clock s = Inr s1"
    and keys: "fst ` set (history s1) = fst ` set (history s)" by blast
  from keys Cons.prems have "fst ` set SITES \<subseteq> fst ` set (history s1)" by simp
  from Cons.IH [OF this] s1 show ?case by (simp add: tick)
qed

lemma main_run_total:
  "\<exists>s. main_run file ticks = Inr s \<and> fst ` set SITES \<subseteq> fst ` set (history s)"
proof -
  have "fst ` set SITES \<subseteq> fst ` set (history initial_monitor)"
    by (force simp: initial_monitor_def)
  moreover have "fst ` set (history initial_monitor)
      \<subseteq> fst ` set (history (load_history file initial_monitor))"
    using load_items_keys_mono [of "history initial_monitor"]
    by (cases "file") (simp_all add: load_history_def)
  ultimately have "fst ` set SITES \<subseteq> fst ` set (history (load_history file initial_monitor))"
    by (rule subset_trans)
  from run_ticks_total [OF this] show ?thesis by (simp add: main_run_def)
qed

text \<open>
  The sequence OK, DOWN, DOWN, DOWN, OK, DOWN run through the program itself, from the
  initial state, with OK measured as code 200 and latency 100: the messages about an
  endpoint after each tick show one alert at tick 2 and one more at tick 6.
\<close>

lemma six_ticks:
  "map (\<lambda>k. case main_run No_file
                  (take k (map (\<lambda>r. (\<lambda>url. r, \<lambda>name. 0))
                     [(Some 200, Some 100), (None, None), (None, None), (None, None),
                      (Some 200, Some 100), (None, None)])) of
               Inl e \<Rightarrow> []
             | Inr s \<Rightarrow> filter (\<lambda>m. message_service m = Some ''HELB'') (alerts s))
       [1, 2, 3, 4, 5, 6] =
   [[], [Down_message ''HELB''], [Down_message ''HELB''], [Down_message ''HELB''],
    [Down_message ''HELB''], [Down_message ''HELB'', Down_message ''HELB'']]"
  by (simp add: main_run_def load_history_def initial_monitor_def SITES_def check_services_def
        check_service_def last_status_def classify_def deque_append_def HISTORY_ENTRIES_def
        py_or_def alert_condition_def compose_message_def send_alert_def SLOW_THRESHOLD_MS_def
        take_Cons')

section \<open>Edge triggering across ticks\<close>

text \<open>
  When the sample of a tick has a code other than 0 and a latency other than 0 and -1 (or
  both absent), the next tick reads it back as it was measured, so its previous
  classification is the current one of this tick and the alert fires exactly on a change
  to SLOW or DOWN.
\<close>

lemma stored_sample_classifies_as_measured:
  assumes "(name, url) \<in> set SITES" and "check_services probe clock s = Inr s'"
    and "fst (probe url) \<noteq> Some 0" and "snd (probe url) \<noteq> Some 0"
    and "snd (probe url) \<noteq> Some (- 1)"
  shows "\<exists>dq'. map_of (history s') name = Some dq'
           \<and> last_status dq' = probe url"
proof -
  from check_services_at [OF assms(1,2)] obtain dq where
    "map_of (history s') name =
       Some (deque_append HISTORY_ENTRIES dq
               (clock name, py_or (fst (probe url)) 0, py_or (snd (probe url)) (- 1)))"
    by blast
  moreover have "last_status (deque_append HISTORY_ENTRIES dq
               (clock name, py_or (fst (probe url)) 0, py_or (snd (probe url)) (- 1)))
        = (fst (probe url), snd (probe url))"
    by (rule read_back_exact [OF assms(3,4,5)])
  ultimately show ?thesis by simp
qed

lemma edge_triggered_across_ticks:
  assumes "(name, url) \<in> set SITES"
    and "check_services probe1 clock1 s = Inr s1"
    and "check_services probe2 clock2 s1 = Inr s2"
    and "fst (probe1 url) \<noteq> Some 0" and "snd (probe1 url) \<noteq> Some 0"
    and "snd (probe1 url) \<noteq> Some (- 1)"
  shows "filter (\<lambda>m. message_service m = Some name) (alerts s2) =
         filter (\<lambda>m. message_service m = Some name) (alerts s1) @
           (if classify (fst (probe2 url)) (snd (probe2 url)) \<in> {SLOW, DOWN}
               \<and> classify (fst (probe2 url)) (snd (probe2 url))
                   \<noteq> classify (fst (probe1 url)) (snd (probe1 url))
            then [if classify (fst (probe2 url)) (snd (probe2 url)) = DOWN
                  then Down_message name
                  else Slow_message name (the (snd (probe2 url))) (fst (probe2 url))]
            else [])"
proof -
  from stored_sample_classifies_as_measured [OF assms(1,2,4,5,6)]
  obtain dq1 where dq1: "map_of (history s1) name = Some dq1"
    and prev: "last_status dq1 = probe1 url" by blast
  from check_services_at [OF assms(1,3)] dq1 prev show ?thesis
    by (auto simp: alert_condition_def)
qed

text \<open>
  C3 across ticks, at samples with latency 0. The previous classification of a tick is
  read from the stored sample, and \<^verbatim>\<open>latency or -1\<close> stores a latency 0 as absent. With
  code 503 and latency 0 measured on two ticks in a row the classification is SLOW both
  times and the alert fires on both. With the sequence OK, DOWN, DOWN, DOWN, OK, DOWN, the
  OK measured as code 200 and latency 0, no alert fires on any of the six ticks.
\<close>

theorem zero_latency_breaks_edge_trigger:
  "classify (Some 503) (Some 0) = SLOW
   \<and> (case main_run No_file
             [(\<lambda>url. (Some 503, Some 0), \<lambda>name. 0), (\<lambda>url. (Some 503, Some 0), \<lambda>name. 300)] of
         Inl e \<Rightarrow> None
       | Inr s \<Rightarrow> Some (filter (\<lambda>m. message_service m = Some ''HELB'') (alerts s)))
       = Some [Slow_message ''HELB'' 0 (Some 503), Slow_message ''HELB'' 0 (Some 503)]
   \<and> map (\<lambda>(code, latency). classify code latency)
         [(Some 200, Some 0), (None, None), (None, None), (None, None),
          (Some 200, Some 0), (None, None)]
       = [OK, DOWN, DOWN, DOWN, OK, DOWN]
   \<and> map (\<lambda>k. case main_run No_file
                  (take k (map (\<lambda>r. (\<lambda>url. r, \<lambda>name. 0))
                     [(Some 200, Some 0), (None, None), (None, None), (None, None),
                      (Some 200, Some 0), (None, None)])) of
               Inl e \<Rightarrow> None
             | Inr s \<Rightarrow> Some (filter (\<lambda>m. message_service m = Some ''HELB'') (alerts s)))
       [1, 2, 3, 4, 5, 6]
       = [Some [], Some [], Some [], Some [], Some [], Some []]"
  by (simp add: main_run_def load_history_def initial_monitor_def SITES_def check_services_def
        check_service_def last_status_def classify_def deque_append_def HISTORY_ENTRIES_def
        py_or_def alert_condition_def compose_message_def send_alert_def SLOW_THRESHOLD_MS_def
        take_Cons')

end
